theory Spec2Isabelle
  imports Main "HOL-Library.Sublist"
begin

section \<open>Python strings\<close>

text \<open>
  A Python \<open>str\<close> is modelled as a \<open>string\<close>; every \<open>char\<close> stands for the code point
  of the same number (0 to 255). The functions below are the \<open>str\<close> methods that
  \<open>html_tools.py\<close> calls, with the same names behind the prefix \<open>py_\<close>.
\<close>

definition isspace :: "char \<Rightarrow> bool" where
  \<comment> \<open>\<open>str.isspace\<close> on one character; also the class \<open>\s\<close> of \<open>re\<close> on \<open>str\<close> patterns.\<close>
  "isspace c = (of_char c \<in> {9, 10, 11, 12, 13, 28, 29, 30, 31, 32, 133, 160 :: nat})"

definition py_strip :: "string \<Rightarrow> string" where
  \<comment> \<open>\<open>s.strip()\<close>\<close>
  "py_strip s = dropWhile isspace (rev (dropWhile isspace (rev s)))"

fun py_find :: "string \<Rightarrow> string \<Rightarrow> nat option" where
  \<comment> \<open>the lowest index at which \<open>sub\<close> occurs in the string, if any\<close>
  "py_find sub [] = (if sub = [] then Some 0 else None)"
| "py_find sub (c # cs) =
     (if prefix sub (c # cs) then Some 0 else map_option Suc (py_find sub cs))"

fun py_split :: "string \<Rightarrow> string \<Rightarrow> string \<Rightarrow> string list" where
  \<comment> \<open>\<open>s.split(sep)\<close> is \<open>py_split sep [] s\<close>; the second argument is the piece being read,
     and after a separator the scan goes on behind it. (Python raises ValueError on an
     empty separator; the callers pass literals.)\<close>
  "py_split sep cur [] = [cur]"
| "py_split sep cur (c # cs) =
     (if sep \<noteq> [] \<and> prefix sep (c # cs)
      then cur # py_split sep [] (drop (length sep - 1) cs)
      else py_split sep (cur @ [c]) cs)"

fun py_join :: "string \<Rightarrow> string list \<Rightarrow> string" where
  \<comment> \<open>\<open>sep.join(xs)\<close>\<close>
  "py_join sep [] = []"
| "py_join sep [x] = x"
| "py_join sep (x # y # ys) = x @ sep @ py_join sep (y # ys)"

fun py_replace :: "string \<Rightarrow> string \<Rightarrow> string \<Rightarrow> string" where
  \<comment> \<open>\<open>s.replace(old, new)\<close> is \<open>py_replace old new s\<close>: the occurrences of \<open>old\<close> are
     found from the left and do not overlap.\<close>
  "py_replace old new [] = (if old = [] then new else [])"
| "py_replace old new (c # cs) =
     (if old = [] then new @ c # py_replace old new cs
      else if prefix old (c # cs) then new @ py_replace old new (drop (length old - 1) cs)
      else c # py_replace old new cs)"

section \<open>The regular expressions of the module\<close>

text \<open>
  Every pattern of \<open>html_tools.py\<close> is a sequence of items, each a character class
  taken once, under a greedy star or under a lazy plus. \<open>match_here\<close> is the
  backtracking matcher of \<open>re\<close> on such a sequence: it tries the alternatives of an
  item in the order of \<open>re\<close> (a greedy star the longest run first, a lazy plus the shortest
  first) and returns the length of the first match that lets the rest of the pattern
  match. The flag is \<open>re.DOTALL\<close>.
\<close>

datatype cclass = Lit char | Dot | Space | NonSpace

datatype quant = Once | GreedyStar | LazyPlus

type_synonym regex = "(cclass \<times> quant) list"

fun cmatch :: "bool \<Rightarrow> cclass \<Rightarrow> char \<Rightarrow> bool" where
  "cmatch dotall (Lit a) c = (c = a)"
| "cmatch dotall Dot c = (dotall \<or> c \<noteq> CHR 0x0A)"
| "cmatch dotall Space c = isspace c"
| "cmatch dotall NonSpace c = (\<not> isspace c)"

definition lit :: "string \<Rightarrow> regex" where
  "lit s = map (\<lambda>c. (Lit c, Once)) s"

fun match_here :: "bool \<Rightarrow> regex \<Rightarrow> string \<Rightarrow> nat option" where
  "match_here d [] s = Some 0"
| "match_here d ((c, Once) # r) [] = None"
| "match_here d ((c, Once) # r) (x # xs) =
     (if cmatch d c x then map_option Suc (match_here d r xs) else None)"
| "match_here d ((c, GreedyStar) # r) [] = match_here d r []"
| "match_here d ((c, GreedyStar) # r) (x # xs) =
     (if cmatch d c x
      then (case match_here d ((c, GreedyStar) # r) xs of
              Some n \<Rightarrow> Some (Suc n)
            | None \<Rightarrow> match_here d r (x # xs))
      else match_here d r (x # xs))"
| "match_here d ((c, LazyPlus) # r) [] = None"
| "match_here d ((c, LazyPlus) # r) (x # xs) =
     (if cmatch d c x
      then (case match_here d r xs of
              Some n \<Rightarrow> Some (Suc n)
            | None \<Rightarrow> map_option Suc (match_here d ((c, LazyPlus) # r) xs))
      else None)"

fun re_search :: "bool \<Rightarrow> regex \<Rightarrow> string \<Rightarrow> (nat \<times> string) option" where
  \<comment> \<open>\<open>re.search\<close>: the leftmost position where the pattern matches, as
     \<open>(m.start(), m.group(0))\<close>\<close>
  "re_search d p [] = map_option (\<lambda>n. (0, [])) (match_here d p [])"
| "re_search d p (x # xs) =
     (case match_here d p (x # xs) of
        Some n \<Rightarrow> Some (0, take n (x # xs))
      | None \<Rightarrow> map_option (\<lambda>(i, m). (Suc i, m)) (re_search d p xs))"

fun re_sub :: "bool \<Rightarrow> regex \<Rightarrow> string \<Rightarrow> string \<Rightarrow> string" where
  \<comment> \<open>\<open>re.sub(pattern, repl, s)\<close> for a literal \<open>repl\<close>: the matches are found from the
     left and do not overlap\<close>
  "re_sub d p repl [] = (case match_here d p [] of Some n \<Rightarrow> repl | None \<Rightarrow> [])"
| "re_sub d p repl (x # xs) =
     (case match_here d p (x # xs) of
        Some n \<Rightarrow> (if n = 0 then repl @ x # re_sub d p repl xs
                   else repl @ re_sub d p repl (drop (n - 1) xs))
      | None \<Rightarrow> x # re_sub d p repl xs)"

text \<open>
  The language of a pattern, with no order among the alternatives: \<open>full_match d p w\<close>
  holds when the whole of \<open>w\<close> is matched by \<open>p\<close>.
\<close>

fun full_match :: "bool \<Rightarrow> regex \<Rightarrow> string \<Rightarrow> bool" where
  "full_match d [] w = (w = [])"
| "full_match d ((c, Once) # r) [] = False"
| "full_match d ((c, Once) # r) (x # xs) = (cmatch d c x \<and> full_match d r xs)"
| "full_match d ((c, GreedyStar) # r) [] = full_match d r []"
| "full_match d ((c, GreedyStar) # r) (x # xs) =
     (full_match d r (x # xs) \<or> (cmatch d c x \<and> full_match d ((c, GreedyStar) # r) xs))"
| "full_match d ((c, LazyPlus) # r) [] = False"
| "full_match d ((c, LazyPlus) # r) (x # xs) =
     (cmatch d c x \<and> (full_match d r xs \<or> full_match d ((c, LazyPlus) # r) xs))"

section \<open>Data model\<close>

text \<open>
  \<open>file_tools.Article\<close> is not part of the module; the record has the attributes that
  \<open>html_tools.py\<close> reads or writes. \<open>html_path\<close> and \<open>human_readable_pub_date\<close> are
  attributes that the module only reads.
\<close>

record article =
  source :: string
  target :: string
  pub_date :: "string option"
  human_readable_pub_date :: string
  html :: string
  html_path :: string
  markdown :: string
  title :: string

text \<open>\<open>class ArticlePreview(Article)\<close>: the attributes of the article and two more.\<close>

record article_preview = article +
  intro_text :: string
  first_photo :: "string option"

record configuration =
  blog_title :: string
  blog_subtitle :: string
  owner :: string
  email_address :: string
  rss_feed_path :: string
  style_sheet :: string
  root_url :: string

datatype error =
    ValueError_no_heading
      \<comment> \<open>\<open>ValueError('Argument `html` must have an `h1` or `h2` tag.')\<close>\<close>
  | ValueError_substring_not_found
      \<comment> \<open>the \<open>ValueError\<close> of \<open>str.index\<close>\<close>
  | IndexError_string
      \<comment> \<open>\<open>IndexError: string index out of range\<close>\<close>
  | IndexError_list
      \<comment> \<open>\<open>IndexError: list index out of range\<close>\<close>
  | AttributeError_None
      \<comment> \<open>\<open>AttributeError: 'NoneType' object has no attribute 'group'\<close>\<close>
  | Collaborator string
      \<comment> \<open>an exception raised inside a collaborator, with its text\<close>

text \<open>
  The collaborators of the module: the functions of \<open>file_tools\<close> and the constant of
  \<open>data\<close> that it imports, \<open>pathlib\<close>, the clock, and \<open>str.format\<close> on the page
  template, whose text comes from a file. A collaborator that raises returns \<open>Inl\<close>
  with the text of the exception. \<open>find_article_index\<close> returns \<open>None\<close> where the Python
  function raises \<open>ValueError\<close> (the article is not in the listing).
\<close>

record env =
  read_listing_file :: "string \<Rightarrow> string + article list"
  read_complete_file :: "string \<Rightarrow> string + string"
  get_configuration :: "string + configuration"
  find_article_index :: "article \<Rightarrow> article list \<Rightarrow> int option"
  LISTING_PATH :: string
  path_join :: "string \<Rightarrow> string \<Rightarrow> string"
    \<comment> \<open>\<open>path_join a b\<close> is \<open>str(Path(a) / b)\<close>\<close>
  today_long :: string
    \<comment> \<open>\<open>datetime.date.today().strftime('%B %d, %Y')\<close>\<close>
  today_year :: string
    \<comment> \<open>\<open>datetime.date.today().strftime('%Y')\<close>\<close>
  format :: "string \<Rightarrow> (string \<rightharpoonup> string) \<Rightarrow> string + string"
    \<comment> \<open>\<open>template.format(**kwargs)\<close>, the keyword arguments as a dictionary\<close>

definition collab :: "string + 'a \<Rightarrow> error + 'a" where
  "collab r = (case r of Inl msg \<Rightarrow> Inl (Collaborator msg) | Inr v \<Rightarrow> Inr v)"

definition py_index :: "'a list \<Rightarrow> int \<Rightarrow> error + 'a" where
  \<comment> \<open>\<open>xs[i]\<close> on a list: a negative index counts from the end\<close>
  "py_index xs i =
     (let n = int (length xs); j = (if i < 0 then n + i else i)
      in if 0 \<le> j \<and> j < n then Inr (xs ! nat j) else Inl IndexError_list)"

section \<open>Templates and patterns\<close>

definition ARTICLE_TITLE_TEMPLATE :: "string \<Rightarrow> string \<Rightarrow> string \<Rightarrow> string" where
  \<comment> \<open>\<open>_ARTICLE_TITLE_TEMPLATE.format(article_path=.., article_title=.., article_subtitle=..)\<close>\<close>
  \<open>ARTICLE_TITLE_TEMPLATE article_path article_title article_subtitle =
     ''<h2 class="article_title"><a href="'' @ article_path @ ''">'' @ article_title
     @ ''</a><p class="article_subtitle">'' @ article_subtitle @ ''</p></h2>''\<close>

definition CONTINUE_READING_TEMPLATE :: "string \<Rightarrow> string" where
  \<open>CONTINUE_READING_TEMPLATE article_path =
     ''<a href="'' @ article_path @ ''">Continue reading...</a>''\<close>

definition ARTICLE_PREVIEW_TEMPLATE :: "string \<Rightarrow> string \<Rightarrow> string \<Rightarrow> string" where
  \<open>ARTICLE_PREVIEW_TEMPLATE article_title article_photo article_content =
     ''<section class="article_preview">'' @ [CHR 0x0A] @ article_title @ [CHR 0x0A]
     @ article_photo @ [CHR 0x0A] @ article_content @ [CHR 0x0A] @ ''</section>''
     @ [CHR 0x0A]\<close>

definition ARTICLE_CONTENT_TEMPLATE :: "string \<Rightarrow> string" where
  \<open>ARTICLE_CONTENT_TEMPLATE article_content =
     ''<section class="article_content">'' @ [CHR 0x0A] @ article_content @ [CHR 0x0A]
     @ ''</section>''\<close>

definition NAV_BAR_TEMPLATE :: "string \<Rightarrow> string" where
  \<open>NAV_BAR_TEMPLATE previous_article =
     ''<a href="'' @ previous_article @ ''">Previous</a> <a href="../">Home</a>''\<close>

definition published_pattern :: regex where
  \<comment> \<open>\<open><Published\s*=\s*.+?>\<close>\<close>
  "published_pattern =
     lit ''<Published'' @ [(Space, GreedyStar)] @ lit ''='' @ [(Space, GreedyStar)]
     @ [(Dot, LazyPlus)] @ lit ''>''"

definition figure_pattern :: regex where
  \<comment> \<open>\<open><figure>.+?</figure>\<close>\<close>
  "figure_pattern = lit ''<figure>'' @ [(Dot, LazyPlus)] @ lit ''</figure>''"

definition article_pattern :: regex where
  \<comment> \<open>\<open><article>.+?</section>\<close>\<close>
  "article_pattern = lit ''<article>'' @ [(Dot, LazyPlus)] @ lit ''</section>''"

definition h1_pattern :: regex where
  \<comment> \<open>\<open><h1>.+?</h1>\<close>\<close>
  "h1_pattern = lit ''<h1>'' @ [(Dot, LazyPlus)] @ lit ''</h1>''"

definition h2_title_pattern :: regex where
  \<comment> \<open>\<open><h2 class="article_title">.+?</a>\<close>\<close>
  \<open>h2_title_pattern = lit ''<h2 class="article_title">'' @ [(Dot, LazyPlus)] @ lit ''</a>''\<close>

definition a_href_pattern :: regex where
  \<comment> \<open>\<open><a href=".+?">\<close>\<close>
  \<open>a_href_pattern = lit ''<a href="'' @ [(Dot, LazyPlus)] @ lit ''">''\<close>

definition h2_block_pattern :: regex where
  \<comment> \<open>\<open><h2.+?</h2>\<close>\<close>
  "h2_block_pattern = lit ''<h2'' @ [(Dot, LazyPlus)] @ lit ''</h2>''"

section \<open>The functions of the module\<close>

definition extract_pub_date :: "string \<Rightarrow> string option" where
  "extract_pub_date html_text = map_option snd (re_search False published_pattern html_text)"

fun collect_intro :: "string list \<Rightarrow> string list \<Rightarrow> error + string list" where
  \<comment> \<open>the loop of \<open>extract_article_preview\<close> over \<open>paragraphs\<close>; the first argument is
     \<open>intro_text_list\<close>\<close>
  "collect_intro intro_text_list [] = Inr intro_text_list"
| "collect_intro intro_text_list (paragraph # paragraphs) =
     (if length intro_text_list > 2 then Inr intro_text_list
      else (case py_strip paragraph of
              [] \<Rightarrow> Inl IndexError_string
            | c # cs \<Rightarrow>
                if c \<noteq> CHR ''<''
                then collect_intro (intro_text_list @ [paragraph]) paragraphs
                else collect_intro intro_text_list paragraphs))"

definition strip_closing_tag :: "string \<Rightarrow> error + string" where
  \<comment> \<open>lines 88 to 92: the text up to the last \<open></p>\<close>\<close>
  "strip_closing_tag intro =
     (let reverse_text = rev intro in
      case py_find ''>p/<'' reverse_text of
        None \<Rightarrow> Inl ValueError_substring_not_found
      | Some i \<Rightarrow>
          let tag_index = i + 4 in
          Inr (if tag_index = 0 then [] else take (length intro - tag_index) intro))"

definition extract_article_preview :: "env \<Rightarrow> article \<Rightarrow> error + article_preview" where
  "extract_article_preview e a =
     (case collab (read_complete_file e (html_path a)) of
        Inl err \<Rightarrow> Inl err
      | Inr article_text \<Rightarrow>
          let paragraphs = py_split ''<p>'' [] article_text in
          case collect_intro [[]] paragraphs of
            Inl err \<Rightarrow> Inl err
          | Inr intro_text_list \<Rightarrow>
              case strip_closing_tag (py_join ''<p>'' intro_text_list) of
                Inl err \<Rightarrow> Inl err
              | Inr intro \<Rightarrow>
                  let photo = map_option snd (re_search True figure_pattern article_text) in
                  Inr \<lparr>source = source a, target = target a, pub_date = pub_date a,
                       human_readable_pub_date = human_readable_pub_date a,
                       html = html a, html_path = html_path a, markdown = markdown a,
                       title = title a, intro_text = intro, first_photo = photo\<rparr>)"

definition generate_preview_html :: "article_preview \<Rightarrow> string" where
  "generate_preview_html p =
     (let article_title_html =
            ARTICLE_TITLE_TEMPLATE (target p) (title p) (human_readable_pub_date p);
          article_photo_html =
            (case first_photo p of
               None \<Rightarrow> []
             | Some photo \<Rightarrow> if photo \<noteq> [] then photo else []);
          continue_reading_link = CONTINUE_READING_TEMPLATE (target p);
          article_content = intro_text p @ '' '' @ continue_reading_link @ ''</p>''
      in ARTICLE_PREVIEW_TEMPLATE article_title_html article_photo_html article_content)"

text \<open>
  \<open>create_article_previews\<close> reverses in place the list that \<open>read_listing_file\<close> gave
  it and returns a generator. The model returns the list object as the call leaves it
  and the generator as the list of the extractions still to be run, in order; a
  consumer runs them from the left and stops at the first that raises.
\<close>

definition create_article_previews ::
  "env \<Rightarrow> string \<Rightarrow> error + (article list \<times> (error + article_preview) list)" where
  "create_article_previews e listing_path =
     (case collab (read_listing_file e listing_path) of
        Inl err \<Rightarrow> Inl err
      | Inr listing \<Rightarrow>
          let listing = rev listing in
          Inr (listing, map (extract_article_preview e) listing))"

fun aggregate :: "string \<Rightarrow> (error + article_preview) list \<Rightarrow> error + string" where
  \<comment> \<open>the loop of \<open>generate_landing_page\<close>; the first argument is \<open>aggregate_html\<close>\<close>
  "aggregate aggregate_html [] = Inr aggregate_html"
| "aggregate aggregate_html (Inl err # articles) = Inl err"
| "aggregate aggregate_html (Inr p # articles) =
     aggregate (aggregate_html @ generate_preview_html p @ [CHR 0x0A, CHR 0x0A]) articles"

definition page_arguments ::
  "env \<Rightarrow> configuration \<Rightarrow> string \<Rightarrow> string \<Rightarrow> string \<Rightarrow> string \<Rightarrow> (string \<rightharpoonup> string)"
  where
  \<comment> \<open>the keyword arguments that both page renderers pass to \<open>format\<close>, as a dictionary\<close>
  "page_arguments e c a_title nav content home =
     map_of
       [(''nav_bar'', nav), (''article_title'', a_title), (''article_content'', content),
        (''last_updated'', ''Last updated: '' @ today_long e),
        (''current_year'', today_year e),
        (''blog_title'', blog_title c), (''blog_subtitle'', blog_subtitle c),
        (''owner'', owner c), (''email_address'', email_address c),
        (''rss_feed_path'', rss_feed_path c), (''style_sheet'', style_sheet c),
        (''root_url'', root_url c), (''home_page_link'', home)]"

text \<open>
  \<open>generate_landing_page\<close> returns its result and the list object of the listing as it
  leaves it (\<open>None\<close> when the listing could not be read).
\<close>

definition generate_landing_page ::
  "env \<Rightarrow> string \<Rightarrow> (error + string) \<times> article list option" where
  "generate_landing_page e template_path =
     (case create_article_previews e (LISTING_PATH e) of
        Inl err \<Rightarrow> (Inl err, None)
      | Inr (listing, articles) \<Rightarrow>
          (case collab (read_complete_file e template_path) of
             Inl err \<Rightarrow> Inl err
           | Inr article_template \<Rightarrow>
               case aggregate [] articles of
                 Inl err \<Rightarrow> Inl err
               | Inr aggregate_html \<Rightarrow>
                   case collab (get_configuration e) of
                     Inl err \<Rightarrow> Inl err
                   | Inr c \<Rightarrow>
                       collab (format e article_template
                         (page_arguments e c (blog_title c) [] aggregate_html [])),
           Some listing))"

definition preprocess_raw_html :: "string \<Rightarrow> error + string" where
  \<open>preprocess_raw_html raw_html =
     (case re_search True article_pattern raw_html of
        None \<Rightarrow> Inl AttributeError_None
      | Some (i, article_content) \<Rightarrow>
          Inr (py_replace ''<section class="article_content">'' []
                (py_replace ''<section class="main_content">'' []
                  (py_replace ''</section>'' []
                    (py_replace ''<article>'' [] article_content)))))\<close>

text \<open>
  \<open>generate_post\<close>, in the order of the source: the heading (lines 213 to 219), the
  title (221 to 226), the content (228 to 255), the link to the previous post (257 to
  281), the navigation bar (286 to 290) and the page (292 to 310).
\<close>

definition article_title_match :: "string \<Rightarrow> string option" where
  \<comment> \<open>\<open>article_title_match.group(0)\<close>, if one of the two searches succeeds\<close>
  "article_title_match html_text =
     (case re_search False h1_pattern html_text of
        Some m \<Rightarrow> Some (snd m)
      | None \<Rightarrow> map_option snd (re_search False h2_title_pattern html_text))"

definition extract_article_title :: "string \<Rightarrow> string" where
  \<open>extract_article_title heading =
     py_replace ''</a>'' []
       (re_sub False a_href_pattern []
         (py_replace ''<h2 class="article_title">'' []
           (py_replace ''</h1>'' [] (py_replace ''<h1>'' [] heading))))\<close>

definition article_content_html :: "article \<Rightarrow> string \<Rightarrow> string \<Rightarrow> error + string" where
  "article_content_html a heading article_title =
     (let pub_date_full = extract_pub_date (html a);
          article_title_html =
            ARTICLE_TITLE_TEMPLATE [] article_title (human_readable_pub_date a);
          h = re_sub False h2_block_pattern [] (html a);
          h = py_replace heading [] h;
          h = py_strip h;
          h = (case pub_date_full of
                 None \<Rightarrow> h
               | Some p \<Rightarrow> if p \<noteq> [] then py_replace p [] h else h);
          article_content = article_title_html @ [CHR 0x0A] @ h
      in case py_split [CHR 0x0A] [] article_content of
           [] \<Rightarrow> Inl IndexError_list
         | line0 # rest \<Rightarrow>
             Inr (ARTICLE_CONTENT_TEMPLATE
                   (if match_here False [(NonSpace, Once)] line0 = None
                    then py_join [CHR 0x0A] rest
                    else article_content)))"

definition previous_article :: "env \<Rightarrow> article \<Rightarrow> article list \<Rightarrow> error + string option" where
  \<comment> \<open>\<open>None\<close> is the empty string \<open>''\<close>, \<open>Some p\<close> a \<open>Path\<close> whose text is \<open>p\<close>\<close>
  "previous_article e a listing =
     (case find_article_index e a listing of
        None \<Rightarrow>
          (case py_index listing (- 1) of
             Inl err \<Rightarrow> Inr None
           | Inr previous \<Rightarrow> Inr (Some (path_join e ''../'' (target previous))))
      | Some article_index \<Rightarrow>
          let previous_article_index = article_index - 1 in
          if previous_article_index \<ge> 0
          then (case py_index listing previous_article_index of
                  Inl err \<Rightarrow> Inl err
                | Inr previous \<Rightarrow> Inr (Some (path_join e ''../'' (target previous))))
          else Inr None)"

definition nav_bar_html :: "string option \<Rightarrow> string" where
  \<open>nav_bar_html previous =
     (let nav_bar = NAV_BAR_TEMPLATE (case previous of None \<Rightarrow> [] | Some p \<Rightarrow> p) in
      if previous = None then py_replace ''<a href="">Previous</a>'' [] nav_bar else nav_bar)\<close>

text \<open>
  \<open>generate_post\<close> returns its result, the article as it leaves it (it assigns the
  title) and the list object of the listing as it leaves it (\<open>None\<close> when it did not
  come to read the listing).
\<close>

definition generate_post ::
  "env \<Rightarrow> article \<Rightarrow> string \<Rightarrow> string \<Rightarrow> (error + string) \<times> article \<times> article list option"
  where
  "generate_post e a template_path listing_path =
     (case article_title_match (html a) of
        None \<Rightarrow> (Inl ValueError_no_heading, a, None)
      | Some heading \<Rightarrow>
          let article_title = extract_article_title heading;
              a = a\<lparr>title := article_title\<rparr>
          in case article_content_html a heading article_title of
               Inl err \<Rightarrow> (Inl err, a, None)
             | Inr article_content \<Rightarrow>
                 case collab (read_listing_file e listing_path) of
                   Inl err \<Rightarrow> (Inl err, a, None)
                 | Inr listing \<Rightarrow>
                     (case previous_article e a listing of
                        Inl err \<Rightarrow> Inl err
                      | Inr previous \<Rightarrow>
                          case collab (read_complete_file e template_path) of
                            Inl err \<Rightarrow> Inl err
                          | Inr template \<Rightarrow>
                              case collab (get_configuration e) of
                                Inl err \<Rightarrow> Inl err
                              | Inr c \<Rightarrow>
                                  collab (format e template
                                    (page_arguments e c article_title
                                       (nav_bar_html previous) article_content ''../'')),
                      a, Some listing))"

section \<open>Notions of the specification\<close>

definition valid_index :: "int option \<Rightarrow> 'a list \<Rightarrow> bool" where
  \<comment> \<open>an index found in a listing is an index of that listing\<close>
  "valid_index r xs = (case r of None \<Rightarrow> True | Some i \<Rightarrow> 0 \<le> i \<and> i < int (length xs))"

definition region :: "bool \<Rightarrow> string \<Rightarrow> string \<Rightarrow> string \<Rightarrow> bool" where
  \<comment> \<open>\<open>m\<close> is \<open>a\<close>, then at least one character, then \<open>b\<close>; without \<open>d\<close> (\<open>re.DOTALL\<close>)
     none of the characters in between is a newline\<close>
  "region d a b m = (\<exists>mid. m = a @ mid @ b \<and> mid \<noteq> [] \<and> (d \<or> CHR 0x0A \<notin> set mid))"

definition first_region :: "bool \<Rightarrow> string \<Rightarrow> string \<Rightarrow> string \<Rightarrow> nat \<Rightarrow> string \<Rightarrow> bool" where
  \<comment> \<open>\<open>m\<close> is the first region of \<open>s\<close> and starts at index \<open>i\<close>: every region of \<open>s\<close>
     starts later, or starts at \<open>i\<close> too and is at least as long\<close>
  "first_region d a b s i m =
     (region d a b m \<and> i \<le> length s \<and> (\<exists>post. s = take i s @ m @ post)
      \<and> (\<forall>pre' m' post'. s = pre' @ m' @ post' \<and> region d a b m' \<longrightarrow>
            i < length pre' \<or> (i = length pre' \<and> length m \<le> length m')))"


definition published_marker :: "string \<Rightarrow> bool" where
  \<comment> \<open>\<open><Published\<close>, whitespace, \<open>=\<close>, whitespace, a value and \<open>>\<close>; the value is one
     character that is not a newline, then characters that are neither \<open>>\<close> nor a
     newline\<close>
  "published_marker m =
     (\<exists>ws1 ws2 c v. m = ''<Published'' @ ws1 @ ''='' @ ws2 @ [c] @ v @ ''>''
        \<and> (\<forall>x\<in>set ws1. isspace x) \<and> (\<forall>x\<in>set ws2. isspace x)
        \<and> c \<noteq> CHR 0x0A \<and> CHR 0x0A \<notin> set v \<and> CHR ''>'' \<notin> set v)"

section \<open>An environment for the examples\<close>

text \<open>
  Modelled from the spec: \<open>find_article_index\<close> of \<open>file_tools\<close>, which is not part of
  the module. The spec has it locate the article in the listing by matching
  \<open>source\<close> and \<open>target\<close>, comparing no other field, and report "not found" otherwise.
\<close>

fun spec_find_article_index :: "article \<Rightarrow> article list \<Rightarrow> int option" where
  "spec_find_article_index a [] = None"
| "spec_find_article_index a (b # listing) =
     (if source b = source a \<and> target b = target a then Some 0
      else map_option (\<lambda>i. i + 1) (spec_find_article_index a listing))"

text \<open>
  A formatter for page templates made of text and \<open>{name}\<close> fields; a name that is not
  a keyword argument is a \<open>KeyError\<close>.
\<close>

fun demo_format :: "nat \<Rightarrow> string \<Rightarrow> (string \<rightharpoonup> string) \<Rightarrow> string + string" where
  \<comment> \<open>the first argument bounds the number of fields\<close>
  "demo_format n [] kw = Inr []"
| "demo_format n (c # cs) kw =
     (if c = CHR ''{''
      then (case n of
              0 \<Rightarrow> Inl ''too many fields''
            | Suc k \<Rightarrow>
                (case kw (takeWhile (\<lambda>x. x \<noteq> CHR ''}'') cs) of
                   None \<Rightarrow> Inl ''KeyError''
                 | Some v \<Rightarrow>
                     (case demo_format k (drop 1 (dropWhile (\<lambda>x. x \<noteq> CHR ''}'') cs)) kw of
                        Inl err \<Rightarrow> Inl err
                      | Inr r \<Rightarrow> Inr (v @ r))))
      else (case demo_format n cs kw of Inl err \<Rightarrow> Inl err | Inr r \<Rightarrow> Inr (c # r)))"

definition demo_article :: "string \<Rightarrow> string \<Rightarrow> article" where
  "demo_article name html_text =
     \<lparr>source = name @ ''.md'', target = name @ ''.html'', pub_date = None,
      human_readable_pub_date = ''January 01, 2016'', html = html_text,
      html_path = name @ ''.html'', markdown = [], title = []\<rparr>"

definition demo_listing :: "article list" where
  "demo_listing =
     [demo_article ''a'' ''<h1>A</h1>'', demo_article ''b'' ''<h1>B</h1>'',
      demo_article ''c'' ''<h1>C</h1>'']"

definition demo_page :: "string \<Rightarrow> string" where
  \<comment> \<open>the file of a rendered post\<close>
  "demo_page name = ''<html><h2>'' @ name @ ''</h2>'' @ [CHR 0x0A] @ ''<p>Intro of ''
     @ name @ ''.</p>'' @ [CHR 0x0A] @ ''<p>More.</p></html>''"

definition demo_env :: "article list \<Rightarrow> env" where
  "demo_env listing =
     \<lparr>read_listing_file = (\<lambda>p. if p = ''listing'' then Inr listing else Inl ''FileNotFoundError''),
      read_complete_file =
        (\<lambda>p. if p = ''template'' then Inr ''{nav_bar}|{article_title}|{article_content}''
             else if p = ''a.html'' then Inr (demo_page ''a'')
             else if p = ''b.html'' then Inr (demo_page ''b'')
             else if p = ''c.html'' then Inr (demo_page ''c'')
             else Inl ''FileNotFoundError''),
      get_configuration =
        Inr \<lparr>blog_title = ''Blog'', blog_subtitle = ''Notes'', owner = ''Owner'',
             email_address = ''owner@example.org'', rss_feed_path = ''rss.xml'',
             style_sheet = ''style.css'', root_url = ''https://example.org''\<rparr>,
      find_article_index = spec_find_article_index,
      LISTING_PATH = ''listing'',
      path_join = (\<lambda>a b. a @ b),
      today_long = ''November 06, 2026'',
      today_year = ''2026'',
      format = (\<lambda>t kw. demo_format (length t) t kw)\<rparr>"

definition demo_preview :: "string \<Rightarrow> string \<Rightarrow> article_preview" where
  \<comment> \<open>the preview of \<open>demo_article name html_text\<close> from the file \<open>demo_page name\<close>\<close>
  "demo_preview name html_text =
     \<lparr>source = name @ ''.md'', target = name @ ''.html'', pub_date = None,
      human_readable_pub_date = ''January 01, 2016'', html = html_text,
      html_path = name @ ''.html'', markdown = [], title = [],
      intro_text = ''<p>Intro of '' @ name @ ''.</p>'' @ [CHR 0x0A] @ ''<p>More.'',
      first_photo = None\<rparr>"

section \<open>The matcher against the language of a pattern\<close>

lemma full_match_star_skip:
  "full_match d r w \<Longrightarrow> full_match d ((c, GreedyStar) # r) w"
  by (cases w) auto

lemma match_here_sound:
  "match_here d p s = Some n \<Longrightarrow> n \<le> length s \<and> full_match d p (take n s)"
  by (induction d p s arbitrary: n rule: match_here.induct)
     (auto split: if_splits option.splits intro: full_match_star_skip)

lemma match_here_star_skip:
  "match_here d r s \<noteq> None \<Longrightarrow> match_here d ((c, GreedyStar) # r) s \<noteq> None"
  by (cases s) (auto split: option.splits)

lemma match_here_complete:
  "full_match d p u \<Longrightarrow> match_here d p (u @ v) \<noteq> None"
proof (induction d p u rule: full_match.induct)
  case (4 d c r)
  then show ?case using match_here_star_skip[of d r v c] by simp
next
  case (5 d c r x xs)
  then show ?case using match_here_star_skip[of d r "x # xs @ v" c]
    by (auto split: option.splits)
qed (auto split: option.splits)

lemma re_search_None:
  "re_search d p s = None \<longleftrightarrow> (\<forall>i\<le>length s. match_here d p (drop i s) = None)"
proof (induction s)
  case Nil
  then show ?case by simp
next
  case (Cons x xs)
  have "(\<forall>i\<le>length (x # xs). match_here d p (drop i (x # xs)) = None) \<longleftrightarrow>
        match_here d p (x # xs) = None \<and> (\<forall>i\<le>length xs. match_here d p (drop i xs) = None)"
    (is "?L \<longleftrightarrow> ?R")
  proof
    assume l: ?L
    have "match_here d p (drop 0 (x # xs)) = None" using l by blast
    moreover have "match_here d p (drop i xs) = None" if "i \<le> length xs" for i
      using l[rule_format, of "Suc i"] that by simp
    ultimately show ?R by simp
  next
    assume r: ?R
    show ?L
    proof (intro allI impI)
      fix i assume "i \<le> length (x # xs)"
      then show "match_here d p (drop i (x # xs)) = None"
        using r by (cases i) auto
    qed
  qed
  then show ?case using Cons.IH by (auto split: option.splits)
qed

lemma re_search_Some:
  "re_search d p s = Some (i, m) \<Longrightarrow>
     i \<le> length s \<and> (\<exists>n. match_here d p (drop i s) = Some n \<and> m = take n (drop i s))
     \<and> (\<forall>j<i. match_here d p (drop j s) = None)"
proof (induction s arbitrary: i m)
  case Nil
  then show ?case by auto
next
  case (Cons x xs)
  show ?case
  proof (cases "match_here d p (x # xs)")
    case None
    with Cons.prems obtain i' where i': "re_search d p xs = Some (i', m)" "i = Suc i'"
      by auto
    from Cons.IH[OF i'(1)] have ih: "i' \<le> length xs"
      "\<exists>n. match_here d p (drop i' xs) = Some n \<and> m = take n (drop i' xs)"
      "\<forall>j<i'. match_here d p (drop j xs) = None" by auto
    have "match_here d p (drop j (x # xs)) = None" if "j < i" for j
      using that None ih(3) i'(2) by (cases j) auto
    then show ?thesis using ih i'(2) by auto
  next
    case (Some n)
    with Cons.prems show ?thesis by auto
  qed
qed

lemma re_search_None_iff:
  "re_search d p s = None \<longleftrightarrow> (\<forall>pre m post. s = pre @ m @ post \<longrightarrow> \<not> full_match d p m)"
proof
  assume n: "re_search d p s = None"
  show "\<forall>pre m post. s = pre @ m @ post \<longrightarrow> \<not> full_match d p m"
  proof (intro allI impI notI)
    fix pre m post
    assume s: "s = pre @ m @ post" and f: "full_match d p m"
    have "\<forall>i\<le>length s. match_here d p (drop i s) = None"
      using n by (simp only: re_search_None)
    moreover have "length pre \<le> length s" "drop (length pre) s = m @ post"
      using s by simp_all
    ultimately have "match_here d p (m @ post) = None" by metis
    then show False using match_here_complete[OF f, of post] by simp
  qed
next
  assume r: "\<forall>pre m post. s = pre @ m @ post \<longrightarrow> \<not> full_match d p m"
  have "match_here d p (drop i s) = None" if "i \<le> length s" for i
  proof (cases "match_here d p (drop i s)")
    case None
    then show ?thesis .
  next
    case (Some n)
    then have "full_match d p (take n (drop i s))" by (simp add: match_here_sound)
    moreover have "s = take i s @ take n (drop i s) @ drop n (drop i s)"
      by (simp only: append_take_drop_id)
    ultimately show ?thesis using r by blast
  qed
  then show "re_search d p s = None" by (simp add: re_search_None)
qed

lemma re_search_Some_lang:
  assumes "re_search d p s = Some (i, m)"
  shows "i \<le> length s" and "s = take i s @ m @ drop (i + length m) s"
    and "full_match d p m"
    and "s = pre @ w @ post \<Longrightarrow> full_match d p w \<Longrightarrow> i \<le> length pre"
proof -
  from re_search_Some[OF assms] obtain n where
    i: "i \<le> length s" and n: "match_here d p (drop i s) = Some n" and m: "m = take n (drop i s)"
    and least: "\<forall>j<i. match_here d p (drop j s) = None" by blast
  from match_here_sound[OF n] have nl: "n \<le> length (drop i s)" and f: "full_match d p m"
    using m by auto
  show "i \<le> length s" by (rule i)
  show "full_match d p m" by (rule f)
  have "length m = n" using m nl by simp
  then have "drop (i + length m) s = drop n (drop i s)" by (simp add: add.commute)
  moreover have "s = take i s @ (take n (drop i s) @ drop n (drop i s))"
    by (simp only: append_take_drop_id)
  ultimately show "s = take i s @ m @ drop (i + length m) s" using m by simp
  show "i \<le> length pre" if s: "s = pre @ w @ post" and w: "full_match d p w"
  proof (rule ccontr)
    assume "\<not> i \<le> length pre"
    then have "match_here d p (drop (length pre) s) = None" using least by simp
    moreover have "drop (length pre) s = w @ post" using s by simp
    ultimately show False using match_here_complete[OF w, of post] by simp
  qed
qed

lemma full_match_lit_append:
  "full_match d (lit u @ r) w \<longleftrightarrow> (\<exists>v. w = u @ v \<and> full_match d r v)"
proof (induction u arbitrary: w)
  case Nil
  then show ?case by (simp add: lit_def)
next
  case (Cons a u)
  then show ?case by (cases w) (auto simp: lit_def)
qed

lemma full_match_lit: "full_match d (lit u) w \<longleftrightarrow> w = u"
  using full_match_lit_append[of d u "[]" w] by auto

lemma full_match_lazy_plusD:
  "full_match d ((c, LazyPlus) # r) w \<Longrightarrow>
     \<exists>a b. w = a @ b \<and> a \<noteq> [] \<and> (\<forall>x\<in>set a. cmatch d c x) \<and> full_match d r b"
proof (induction w)
  case Nil
  then show ?case by simp
next
  case (Cons x xs)
  from Cons.prems have x: "cmatch d c x"
    and alt: "full_match d r xs \<or> full_match d ((c, LazyPlus) # r) xs" by auto
  from alt show ?case
  proof
    assume "full_match d r xs"
    then have "x # xs = [x] @ xs \<and> [x] \<noteq> [] \<and> (\<forall>y\<in>set [x]. cmatch d c y) \<and> full_match d r xs"
      using x by simp
    then show ?thesis by blast
  next
    assume "full_match d ((c, LazyPlus) # r) xs"
    from Cons.IH[OF this] obtain a b where
      "xs = a @ b" "a \<noteq> []" "\<forall>y\<in>set a. cmatch d c y" "full_match d r b" by blast
    then have "x # xs = (x # a) @ b \<and> x # a \<noteq> [] \<and> (\<forall>y\<in>set (x # a). cmatch d c y)
        \<and> full_match d r b" using x by simp
    then show ?thesis by blast
  qed
qed

lemma full_match_lazy_plusI:
  "a \<noteq> [] \<Longrightarrow> \<forall>x\<in>set a. cmatch d c x \<Longrightarrow> full_match d r b \<Longrightarrow>
     full_match d ((c, LazyPlus) # r) (a @ b)"
proof (induction a)
  case Nil
  then show ?case by simp
next
  case (Cons x a)
  then show ?case by (cases a) auto
qed

lemma full_match_lazy_plus:
  "full_match d ((c, LazyPlus) # r) w \<longleftrightarrow>
     (\<exists>a b. w = a @ b \<and> a \<noteq> [] \<and> (\<forall>x\<in>set a. cmatch d c x) \<and> full_match d r b)"
  using full_match_lazy_plusD full_match_lazy_plusI by blast

lemma full_match_starD:
  "full_match d ((c, GreedyStar) # r) w \<Longrightarrow>
     \<exists>a b. w = a @ b \<and> (\<forall>x\<in>set a. cmatch d c x) \<and> full_match d r b"
proof (induction w)
  case Nil
  then show ?case by simp
next
  case (Cons x xs)
  from Cons.prems
  have "full_match d r (x # xs) \<or> (cmatch d c x \<and> full_match d ((c, GreedyStar) # r) xs)"
    by simp
  then show ?case
  proof
    assume "full_match d r (x # xs)"
    then have "x # xs = [] @ (x # xs) \<and> (\<forall>y\<in>set []. cmatch d c y) \<and> full_match d r (x # xs)"
      by simp
    then show ?thesis by blast
  next
    assume a: "cmatch d c x \<and> full_match d ((c, GreedyStar) # r) xs"
    with Cons.IH obtain a b where
      "xs = a @ b" "\<forall>y\<in>set a. cmatch d c y" "full_match d r b" by blast
    then have "x # xs = (x # a) @ b \<and> (\<forall>y\<in>set (x # a). cmatch d c y) \<and> full_match d r b"
      using a by simp
    then show ?thesis by blast
  qed
qed

lemma full_match_starI:
  "\<forall>x\<in>set a. cmatch d c x \<Longrightarrow> full_match d r b \<Longrightarrow>
     full_match d ((c, GreedyStar) # r) (a @ b)"
  by (induction a) (auto intro: full_match_star_skip)

lemma full_match_star:
  "full_match d ((c, GreedyStar) # r) w \<longleftrightarrow>
     (\<exists>a b. w = a @ b \<and> (\<forall>x\<in>set a. cmatch d c x) \<and> full_match d r b)"
  using full_match_starD full_match_starI by blast

lemma match_here_lit_append:
  "match_here d (lit u @ r) s =
     (if prefix u s then map_option (\<lambda>n. length u + n) (match_here d r (drop (length u) s))
      else None)"
proof (induction u arbitrary: s)
  case Nil
  then show ?case by (cases "match_here d r s") (simp_all add: lit_def)
next
  case (Cons a u)
  then show ?case by (cases s) (auto simp: lit_def option.map_comp comp_def)
qed

lemma match_here_lit:
  "match_here d (lit u) s = (if prefix u s then Some (length u) else None)"
  using match_here_lit_append[of d u "[]" s] by simp

section \<open>Searches for a delimited region\<close>

lemma full_match_region:
  "full_match d (lit a @ [(Dot, LazyPlus)] @ lit b) m \<longleftrightarrow> region d a b m"
proof -
  have "(\<forall>x\<in>set mid. cmatch d Dot x) \<longleftrightarrow> (d \<or> CHR 0x0A \<notin> set mid)" for mid
    by auto
  then show ?thesis
    by (simp add: full_match_lit_append full_match_lazy_plus full_match_lit region_def)
       (metis append_assoc)
qed

lemma full_match_region_Cons:
  "full_match d (lit a @ (Dot, LazyPlus) # lit b) m \<longleftrightarrow> region d a b m"
  using full_match_region[of d a b m] by simp

lemma lazy_plus_shortest:
  "match_here d ((c, LazyPlus) # lit b) s = Some n \<Longrightarrow> k < n \<Longrightarrow>
     \<not> full_match d ((c, LazyPlus) # lit b) (take k s)"
proof (induction s arbitrary: n k)
  case Nil
  then show ?case by simp
next
  case (Cons x xs)
  show ?case
  proof
    assume f: "full_match d ((c, LazyPlus) # lit b) (take k (x # xs))"
    then obtain k' where k: "k = Suc k'" by (cases k) auto
    from f k have alt: "full_match d (lit b) (take k' xs) \<or>
        full_match d ((c, LazyPlus) # lit b) (take k' xs)" by simp
    from Cons.prems(1) have cx: "cmatch d c x" by (simp split: if_splits)
    show False
    proof (cases "match_here d (lit b) xs")
      case None
      with Cons.prems(1) cx obtain n' where
        n': "match_here d ((c, LazyPlus) # lit b) xs = Some n'" "n = Suc n'" by auto
      from alt show False
      proof
        assume "full_match d (lit b) (take k' xs)"
        from match_here_complete[OF this, of "drop k' xs"] None show False by simp
      next
        assume "full_match d ((c, LazyPlus) # lit b) (take k' xs)"
        moreover have "k' < n'" using Cons.prems(2) k n'(2) by simp
        ultimately show False using Cons.IH[OF n'(1)] by blast
      qed
    next
      case (Some n')
      then have n': "n' = length b" by (simp add: match_here_lit split: if_splits)
      from Some Cons.prems(1) cx have n: "n = Suc n'" by simp
      from alt show False
      proof
        assume "full_match d (lit b) (take k' xs)"
        then have "take k' xs = b" by (simp add: full_match_lit)
        then have "length b \<le> k'" by (metis length_take min.cobounded2)
        then show False using Cons.prems(2) k n n' by simp
      next
        assume "full_match d ((c, LazyPlus) # lit b) (take k' xs)"
        then obtain u v where "take k' xs = u @ v" "u \<noteq> []" "full_match d (lit b) v"
          using full_match_lazy_plusD by blast
        then have "take k' xs = u @ b" "u \<noteq> []" by (simp_all add: full_match_lit)
        then have "length b < length (take k' xs)" by (cases u) simp_all
        then have "length b < k'" by simp
        then show False using Cons.prems(2) k n n' by simp
      qed
    qed
  qed
qed

lemma re_search_first_region:
  assumes "re_search d (lit a @ [(Dot, LazyPlus)] @ lit b) s = Some (i, m)"
  shows "first_region d a b s i m"
proof -
  let ?p = "lit a @ [(Dot, LazyPlus)] @ lit b"
  note L = re_search_Some_lang[OF assms]
  from re_search_Some[OF assms] obtain n where
    n: "match_here d ?p (drop i s) = Some n" and m: "m = take n (drop i s)"
    by blast
  from match_here_sound[OF n] have nl: "n \<le> length (drop i s)" by simp
  then have lm: "length m = n" using m by simp
  from n obtain n' where pa: "prefix a (drop i s)"
    and n': "match_here d ((Dot, LazyPlus) # lit b) (drop (length a) (drop i s)) = Some n'"
    and nn: "n = length a + n'"
    by (auto simp: match_here_lit_append split: if_splits)
  have later: "i < length pre' \<or> (i = length pre' \<and> length m \<le> length m')"
    if s: "s = pre' @ m' @ post'" and r: "region d a b m'" for pre' m' post'
  proof -
    have f: "full_match d ?p m'" using r by (simp add: full_match_region_Cons)
    from L(4)[OF s f] have "i \<le> length pre'" .
    moreover have "length m \<le> length m'" if e: "i = length pre'"
    proof (rule ccontr)
      assume "\<not> length m \<le> length m'"
      then have lt: "length m' < n" using lm by simp
      from r obtain mid where mid: "m' = a @ mid @ b" "mid \<noteq> []" "d \<or> CHR 0x0A \<notin> set mid"
        by (auto simp: region_def)
      have dr: "drop (length a) (drop i s) = mid @ b @ post'" using s e mid(1) by simp
      have "full_match d ((Dot, LazyPlus) # lit b) (mid @ b)"
        using mid by (intro full_match_lazy_plusI) (auto simp: full_match_lit)
      moreover have "take (length (mid @ b)) (drop (length a) (drop i s)) = mid @ b"
        using dr by simp
      moreover have "length (mid @ b) < n'" using lt nn mid(1) by simp
      ultimately show False using lazy_plus_shortest[OF n'] by metis
    qed
    ultimately show ?thesis by linarith
  qed
  have "region d a b m" using L(3) by (simp add: full_match_region_Cons)
  moreover have "\<exists>post. s = take i s @ m @ post" using L(2) by blast
  ultimately show ?thesis using L(1) later by (simp add: first_region_def)
qed

lemma re_search_no_region:
  "re_search d (lit a @ [(Dot, LazyPlus)] @ lit b) s = None \<longleftrightarrow>
     \<not> (\<exists>pre m post. s = pre @ m @ post \<and> region d a b m)"
  by (simp add: re_search_None_iff full_match_region_Cons) blast



section \<open>Facts about the strings and the example environment\<close>

lemma py_split_not_Nil: "py_split sep cur s \<noteq> []"
  by (induction sep cur s rule: py_split.induct) auto

lemma demo_index [simp]:
  "find_article_index (demo_env l) = spec_find_article_index"
  "path_join (demo_env l) = (\<lambda>a b. a @ b)"
  by (simp_all add: demo_env_def)

lemma demo_env_simps [simp]:
  "read_listing_file (demo_env l) ''listing'' = Inr l"
  "LISTING_PATH (demo_env l) = ''listing''"
  "read_complete_file (demo_env l) ''template'' = Inr ''{nav_bar}|{article_title}|{article_content}''"
  by (simp_all add: demo_env_def)

lemma demo_extract:
  "extract_article_preview (demo_env l) (demo_article ''a'' h) = Inr (demo_preview ''a'' h)"
  "extract_article_preview (demo_env l) (demo_article ''b'' h) = Inr (demo_preview ''b'' h)"
  by (simp_all add: extract_article_preview_def demo_env_def demo_article_def demo_page_def
      demo_preview_def collab_def py_strip_def isspace_def strip_closing_tag_def
      figure_pattern_def lit_def)

lemma demo_format_page:
  "format (demo_env l) ''{nav_bar}|{article_title}|{article_content}''
     (page_arguments (demo_env l) c t nav content home)
   = Inr (nav @ ''|'' @ t @ ''|'' @ content)"
  by (simp add: demo_env_def page_arguments_def)

lemma demo_configuration:
  "get_configuration (demo_env l) =
     Inr \<lparr>blog_title = ''Blog'', blog_subtitle = ''Notes'', owner = ''Owner'',
          email_address = ''owner@example.org'', rss_feed_path = ''rss.xml'',
          style_sheet = ''style.css'', root_url = ''https://example.org''\<rparr>"
  by (simp add: demo_env_def)

section \<open>C1: the link to the previous post\<close>

lemma py_index_valid:
  "0 \<le> i \<Longrightarrow> i < int (length xs) \<Longrightarrow> py_index xs i = Inr (xs ! nat i)"
  by (simp add: py_index_def)

lemma py_index_last:
  "py_index xs (- 1) = (if xs = [] then Inl IndexError_list else Inr (last xs))"
  by (cases xs rule: rev_cases) (auto simp: py_index_def Let_def nth_append)

lemma article_content_html_Inr:
  "\<exists>content. article_content_html a heading t = Inr content"
  by (simp add: article_content_html_def Let_def py_split_not_Nil split: list.splits)

text \<open>
  C1. The link to the previous post that \<open>generate_post\<close> computes (lines 257 to 281),
  for a \<open>find_article_index\<close> whose answer is an index of the listing: found at an index
  \<open>i > 0\<close>, it is the target of entry \<open>i - 1\<close> joined under \<open>../\<close>; found at index 0, it
  is empty; not found, it is the target of the last entry joined under \<open>../\<close>; and it
  is empty whenever the listing is empty. When the article \<open>a0\<close> has a heading and the
  listing, the template and the configuration are read, the page that \<open>generate_post\<close>
  returns is the template formatted with the navigation bar of that link.
\<close>

theorem previous_article_link:
  assumes "valid_index (find_article_index e a listing) listing"
  shows "(\<forall>i. find_article_index e a listing = Some i \<and> 0 < i \<longrightarrow>
            previous_article e a listing =
              Inr (Some (path_join e ''../'' (target (listing ! nat (i - 1))))))
       \<and> (find_article_index e a listing = Some 0 \<longrightarrow> previous_article e a listing = Inr None)
       \<and> (find_article_index e a listing = None \<and> listing \<noteq> [] \<longrightarrow>
            previous_article e a listing =
              Inr (Some (path_join e ''../'' (target (last listing)))))
       \<and> (listing = [] \<longrightarrow> previous_article e a listing = Inr None)
       \<and> (article_title_match (html a0) = Some heading
            \<and> a = a0\<lparr>title := extract_article_title heading\<rparr>
            \<and> read_listing_file e listing_path = Inr listing
            \<and> read_complete_file e template_path = Inr template
            \<and> get_configuration e = Inr c \<longrightarrow>
          (\<exists>previous content.
             previous_article e a listing = Inr previous
             \<and> fst (generate_post e a0 template_path listing_path) =
                 collab (format e template
                   (page_arguments e c (title a) (nav_bar_html previous) content ''../''))))"
proof (intro conjI allI impI)
  fix i assume h: "find_article_index e a listing = Some i \<and> 0 < i"
  then have "0 \<le> i - 1" "i - 1 < int (length listing)"
    using assms by (auto simp: valid_index_def)
  then show "previous_article e a listing =
      Inr (Some (path_join e ''../'' (target (listing ! nat (i - 1)))))"
    using h by (simp add: previous_article_def py_index_valid)
next
  assume "find_article_index e a listing = Some 0"
  then show "previous_article e a listing = Inr None"
    by (simp add: previous_article_def)
next
  assume "find_article_index e a listing = None \<and> listing \<noteq> []"
  then show "previous_article e a listing =
      Inr (Some (path_join e ''../'' (target (last listing))))"
    by (simp add: previous_article_def py_index_last)
next
  assume l: "listing = []"
  then have "find_article_index e a listing = None"
    using assms by (cases "find_article_index e a listing") (auto simp: valid_index_def)
  then show "previous_article e a listing = Inr None"
    using l by (simp add: previous_article_def py_index_last)
next
  assume r: "article_title_match (html a0) = Some heading
      \<and> a = a0\<lparr>title := extract_article_title heading\<rparr>
      \<and> read_listing_file e listing_path = Inr listing
      \<and> read_complete_file e template_path = Inr template
      \<and> get_configuration e = Inr c"
  have "\<exists>previous. previous_article e a listing = Inr previous"
  proof (cases "find_article_index e a listing")
    case None
    then show ?thesis by (simp add: previous_article_def py_index_last)
  next
    case (Some i)
    then have "0 \<le> i" "i < int (length listing)" using assms by (auto simp: valid_index_def)
    then show ?thesis using Some by (simp add: previous_article_def py_index_def Let_def)
  qed
  then obtain previous where p: "previous_article e a listing = Inr previous" by blast
  obtain content where
    c: "article_content_html a heading (extract_article_title heading) = Inr content"
    using article_content_html_Inr by blast
  have "fst (generate_post e a0 template_path listing_path) =
      collab (format e template
        (page_arguments e c (title a) (nav_bar_html previous) content ''../''))"
    using r p c by (simp add: generate_post_def Let_def collab_def)
  with p show "\<exists>previous content.
      previous_article e a listing = Inr previous
      \<and> fst (generate_post e a0 template_path listing_path) =
          collab (format e template
            (page_arguments e c (title a) (nav_bar_html previous) content ''../''))"
    by blast
qed

theorem previous_article_link_witness:
  \<open>previous_article (demo_env demo_listing) (demo_article ''b'' ''<h1>B</h1>'') demo_listing
     = Inr (Some ''../a.html'')
   \<and> previous_article (demo_env demo_listing) (demo_article ''a'' ''<h1>A</h1>'') demo_listing
     = Inr None
   \<and> previous_article (demo_env demo_listing) (demo_article ''d'' ''<h1>D</h1>'') demo_listing
     = Inr (Some ''../c.html'')
   \<and> previous_article (demo_env []) (demo_article ''d'' ''<h1>D</h1>'') [] = Inr None
   \<and> (\<exists>content.
         fst (generate_post (demo_env demo_listing) (demo_article ''b'' ''<h1>B</h1>'')
                ''template'' ''listing'')
         = Inr (''<a href="../a.html">Previous</a> <a href="../">Home</a>|B|'' @ content))\<close>
proof -
  let ?e = "demo_env demo_listing"
  let ?b = "demo_article ''b'' ''<h1>B</h1>''"
  have b: "find_article_index ?e ?b demo_listing = Some 1"
    by (simp add: demo_listing_def demo_article_def)
  have a: "find_article_index ?e (demo_article ''a'' ''<h1>A</h1>'') demo_listing = Some 0"
    by (simp add: demo_listing_def demo_article_def)
  have d: "find_article_index ?e (demo_article ''d'' ''<h1>D</h1>'') demo_listing = None"
    by (simp add: demo_listing_def demo_article_def)
  have d0: "find_article_index (demo_env []) (demo_article ''d'' ''<h1>D</h1>'') [] = None"
    by simp
  have len: "length demo_listing = 3" by (simp add: demo_listing_def)
  have 1: "previous_article ?e ?b demo_listing = Inr (Some ''../a.html'')"
    using previous_article_link[of ?e ?b demo_listing] b len
    by (simp add: valid_index_def) (simp add: demo_listing_def demo_article_def)
  have 2: "previous_article ?e (demo_article ''a'' ''<h1>A</h1>'') demo_listing = Inr None"
    using previous_article_link[of ?e "demo_article ''a'' ''<h1>A</h1>''" demo_listing] a len
    by (simp add: valid_index_def)
  have 3: "previous_article ?e (demo_article ''d'' ''<h1>D</h1>'') demo_listing
     = Inr (Some ''../c.html'')"
    using previous_article_link[of ?e "demo_article ''d'' ''<h1>D</h1>''" demo_listing] d len
    by (simp add: valid_index_def) (simp add: demo_listing_def demo_article_def)
  have 4: "previous_article (demo_env []) (demo_article ''d'' ''<h1>D</h1>'') [] = Inr None"
    using previous_article_link[of "demo_env []" "demo_article ''d'' ''<h1>D</h1>''" "[]"] d0
    by (simp add: valid_index_def)
  have 5: \<open>\<exists>content.
         fst (generate_post ?e ?b ''template'' ''listing'')
         = Inr (''<a href="../a.html">Previous</a> <a href="../">Home</a>|B|'' @ content)\<close>
  proof -
    let ?a = "?b\<lparr>title := ''B''\<rparr>"
    let ?c = "\<lparr>blog_title = ''Blog'', blog_subtitle = ''Notes'', owner = ''Owner'',
          email_address = ''owner@example.org'', rss_feed_path = ''rss.xml'',
          style_sheet = ''style.css'', root_url = ''https://example.org''\<rparr>"
    have m: "article_title_match (html ?b) = Some ''<h1>B</h1>''"
      by (simp add: article_title_match_def h1_pattern_def lit_def demo_article_def)
    have t: "extract_article_title ''<h1>B</h1>'' = ''B''"
      by (simp add: extract_article_title_def a_href_pattern_def lit_def)
    have i: "find_article_index ?e ?a demo_listing = Some 1"
      by (simp add: demo_listing_def demo_article_def)
    have v: "valid_index (find_article_index ?e ?a demo_listing) demo_listing"
      using i len by (simp add: valid_index_def)
    note L = previous_article_link[OF v, where ?a0.0 = ?b and heading = "''<h1>B</h1>''"
        and listing_path = "''listing''" and template_path = "''template''"
        and template = "''{nav_bar}|{article_title}|{article_content}''" and c = ?c]
    from L i have p: "previous_article ?e ?a demo_listing = Inr (Some ''../a.html'')"
      by (simp add: demo_listing_def demo_article_def)
    from L m t obtain previous content where
      r: "previous_article ?e ?a demo_listing = Inr previous"
        "fst (generate_post ?e ?b ''template'' ''listing'') =
           collab (format ?e ''{nav_bar}|{article_title}|{article_content}''
             (page_arguments ?e ?c (title ?a) (nav_bar_html previous) content ''../''))"
      by (auto simp: demo_configuration)
    from r(1) p have "previous = Some ''../a.html''" by simp
    then have \<open>fst (generate_post ?e ?b ''template'' ''listing'')
        = Inr (''<a href="../a.html">Previous</a> <a href="../">Home</a>|B|'' @ content)\<close>
      using r(2)
      by (simp add: demo_format_page collab_def nav_bar_html_def NAV_BAR_TEMPLATE_def)
    then show ?thesis by blast
  qed
  show ?thesis using 1 2 3 4 5 by simp
qed

section \<open>C2: a post without a title heading\<close>







section \<open>C3: the preview of a body that starts with a paragraph\<close>

text \<open>
  C3. On the body \<open><p>Intro.</p><p>More.</p>\<close> the split on \<open><p>\<close> gives an empty first
  fragment, whose first character the loop reads: \<open>extract_article_preview\<close> raises
  \<open>IndexError\<close> and returns no preview, whatever the rest of the environment and the
  article are.
\<close>

theorem extract_article_preview_two_paragraphs:
  "extract_article_preview
     (e\<lparr>read_complete_file := \<lambda>p. Inr ''<p>Intro.</p><p>More.</p>''\<rparr>) a
   = Inl IndexError_string"
  by (simp add: extract_article_preview_def collab_def py_strip_def)

section \<open>C4: the closing tag of the intro text\<close>





section \<open>C5: the publication date marker\<close>

lemma match_here_lit_appendD:
  "match_here d (lit u @ r) s = Some n \<Longrightarrow>
     \<exists>s' n'. s = u @ s' \<and> match_here d r s' = Some n' \<and> n = length u + n'"
  by (auto simp: match_here_lit_append prefix_def split: if_splits)

lemma match_here_starD:
  "match_here d ((c, GreedyStar) # r) s = Some n \<Longrightarrow>
     \<exists>a s' n'. s = a @ s' \<and> (\<forall>x\<in>set a. cmatch d c x)
        \<and> match_here d r s' = Some n' \<and> n = length a + n'"
proof (induction s arbitrary: n)
  case Nil
  then have "match_here d r [] = Some n" by simp
  then show ?case
    by (intro exI[of _ "[]"] exI[of _ n]) simp
next
  case (Cons x xs)
  have skip: ?case if "match_here d r (x # xs) = Some n"
    using that by (intro exI[of _ "[]"] exI[of _ "x # xs"] exI[of _ n]) simp
  show ?case
  proof (cases "cmatch d c x")
    case False
    with Cons.prems have "match_here d r (x # xs) = Some n" by simp
    then show ?thesis by (rule skip)
  next
    case True
    show ?thesis
    proof (cases "match_here d ((c, GreedyStar) # r) xs")
      case None
      with Cons.prems True have "match_here d r (x # xs) = Some n" by simp
      then show ?thesis by (rule skip)
    next
      case (Some k)
      with Cons.prems True have n: "n = Suc k" by simp
      from Cons.IH[OF Some] obtain a s' n' where
        ih: "xs = a @ s'" "\<forall>y\<in>set a. cmatch d c y" "match_here d r s' = Some n'"
        "k = length a + n'" by blast
      show ?thesis
        using True n ih by (intro exI[of _ "x # a"] exI[of _ s'] exI[of _ n']) simp
    qed
  qed
qed

lemma match_here_lazy_plus_charD:
  "match_here d ((c, LazyPlus) # lit [b]) s = Some n \<Longrightarrow>
     \<exists>x v rest. s = x # v @ b # rest \<and> n = length v + 2 \<and> cmatch d c x
        \<and> (\<forall>y\<in>set v. cmatch d c y) \<and> b \<notin> set v"
proof (induction s arbitrary: n)
  case Nil
  then show ?case by simp
next
  case (Cons x xs)
  from Cons.prems have cx: "cmatch d c x" by (simp split: if_splits)
  show ?case
  proof (cases "match_here d (lit [b]) xs")
    case (Some n')
    then obtain rest where xs: "xs = b # rest" and n': "n' = 1"
      by (auto simp: match_here_lit prefix_def split: if_splits)
    from Some Cons.prems cx have "n = Suc n'" by simp
    then have "x # xs = x # [] @ b # rest \<and> n = length ([]::string) + 2 \<and> cmatch d c x
        \<and> (\<forall>y\<in>set []. cmatch d c y) \<and> b \<notin> set []"
      using xs n' cx by simp
    then show ?thesis by blast
  next
    case None
    with Cons.prems cx obtain n' where
      n': "match_here d ((c, LazyPlus) # lit [b]) xs = Some n'" "n = Suc n'" by auto
    from Cons.IH[OF n'(1)] obtain x' v rest where
      ih: "xs = x' # v @ b # rest" "n' = length v + 2" "cmatch d c x'"
        "\<forall>y\<in>set v. cmatch d c y" "b \<notin> set v" by blast
    have "x' \<noteq> b" using None ih(1) by (auto simp: match_here_lit)
    then have "x # xs = x # (x' # v) @ b # rest \<and> n = length (x' # v) + 2 \<and> cmatch d c x
        \<and> (\<forall>y\<in>set (x' # v). cmatch d c y) \<and> b \<notin> set (x' # v)"
      using ih n'(2) cx by simp
    then show ?thesis by blast
  qed
qed

lemma published_match_marker:
  assumes "match_here False published_pattern s = Some n"
  shows "published_marker (take n s)"
proof -
  let ?r3 = "[(Dot, LazyPlus)] @ lit ''>''"
  let ?r2 = "[(Space, GreedyStar)] @ ?r3"
  let ?r1 = "[(Space, GreedyStar)] @ lit ''='' @ ?r2"
  have p: "published_pattern = lit ''<Published'' @ ?r1" by (simp add: published_pattern_def)
  from assms obtain s1 n1 where 1: "s = ''<Published'' @ s1"
    "match_here False ?r1 s1 = Some n1" "n = length ''<Published'' + n1"
    unfolding p using match_here_lit_appendD by blast
  from 1(2) obtain ws1 s2 n2 where 2: "s1 = ws1 @ s2" "\<forall>x\<in>set ws1. cmatch False Space x"
    "match_here False (lit ''='' @ ?r2) s2 = Some n2" "n1 = length ws1 + n2"
    using match_here_starD[of False Space "lit ''='' @ ?r2" s1 n1] by auto
  from 2(3) obtain s3 n3 where 3: "s2 = ''='' @ s3" "match_here False ?r2 s3 = Some n3"
    "n2 = length ''='' + n3"
    using match_here_lit_appendD by blast
  from 3(2) obtain ws2 s4 n4 where 4: "s3 = ws2 @ s4" "\<forall>x\<in>set ws2. cmatch False Space x"
    "match_here False ?r3 s4 = Some n4" "n3 = length ws2 + n4"
    using match_here_starD[of False Space ?r3 s3 n3] by auto
  from 4(3) obtain c v rest where 5: "s4 = c # v @ CHR ''>'' # rest" "n4 = length v + 2"
    "cmatch False Dot c" "\<forall>y\<in>set v. cmatch False Dot y" "CHR ''>'' \<notin> set v"
    using match_here_lazy_plus_charD[of False Dot "CHR ''>''" s4 n4] by (auto simp: lit_def)
  let ?m = "''<Published'' @ ws1 @ ''='' @ ws2 @ [c] @ v @ ''>''"
  have s: "s = ?m @ rest" using 1(1) 2(1) 3(1) 4(1) 5(1) by simp
  have n: "n = length ?m" using 1(3) 2(4) 3(3) 4(4) 5(2) by simp
  have "take n s = ?m" using s n by (metis append_eq_conv_conj)
  moreover have "published_marker ?m"
  proof -
    have "?m = ''<Published'' @ ws1 @ ''='' @ ws2 @ [c] @ v @ ''>''
        \<and> (\<forall>x\<in>set ws1. isspace x) \<and> (\<forall>x\<in>set ws2. isspace x)
        \<and> c \<noteq> CHR 0x0A \<and> CHR 0x0A \<notin> set v \<and> CHR ''>'' \<notin> set v"
      using 2(2) 4(2) 5(3,4,5) by auto
    then show ?thesis
      by (unfold published_marker_def, rule_tac x = ws1 in exI, rule_tac x = ws2 in exI,
          rule_tac x = c in exI, rule_tac x = v in exI)
  qed
  ultimately show ?thesis by simp
qed

lemma published_marker_full_match:
  assumes "published_marker m"
  shows "full_match False published_pattern m"
proof -
  from assms obtain ws1 ws2 c v where
    m: "m = ''<Published'' @ ws1 @ ''='' @ ws2 @ [c] @ v @ ''>''"
    and w: "\<forall>x\<in>set ws1. isspace x" "\<forall>x\<in>set ws2. isspace x"
    and v: "c \<noteq> CHR 0x0A" "CHR 0x0A \<notin> set v"
    unfolding published_marker_def by blast
  have 3: "full_match False ((Dot, LazyPlus) # lit ''>'') ((c # v) @ ''>'')"
    using v by (intro full_match_lazy_plusI) (auto simp: full_match_lit)
  have 2: "full_match False ((Space, GreedyStar) # (Dot, LazyPlus) # lit ''>'')
      (ws2 @ (c # v) @ ''>'')"
    using w(2) 3 by (intro full_match_starI) auto
  have 1: "full_match False (lit ''='' @ (Space, GreedyStar) # (Dot, LazyPlus) # lit ''>'')
      (''='' @ ws2 @ (c # v) @ ''>'')"
    using 2 by (simp only: full_match_lit_append) blast
  have 0: "full_match False
      ((Space, GreedyStar) # lit ''='' @ (Space, GreedyStar) # (Dot, LazyPlus) # lit ''>'')
      (ws1 @ ''='' @ ws2 @ (c # v) @ ''>'')"
    using w(1) 1 by (intro full_match_starI) auto
  have "full_match False
      (lit ''<Published'' @ (Space, GreedyStar) # lit ''='' @ (Space, GreedyStar)
         # (Dot, LazyPlus) # lit ''>'')
      (''<Published'' @ ws1 @ ''='' @ ws2 @ (c # v) @ ''>'')"
    using 0 by (simp only: full_match_lit_append) blast
  then show ?thesis by (simp add: published_pattern_def m)
qed

lemma extract_pub_date_Some:
  assumes "extract_pub_date h = Some m"
  shows "\<exists>pre post. h = pre @ m @ post \<and> published_marker m
     \<and> (\<forall>pre' m' post'. h = pre' @ m' @ post' \<and> published_marker m' \<longrightarrow>
           length pre \<le> length pre')"
proof -
  from assms obtain i where im: "re_search False published_pattern h = Some (i, m)"
    by (auto simp: extract_pub_date_def)
  note L = re_search_Some_lang[OF im]
  from re_search_Some[OF im] obtain n where
    "match_here False published_pattern (drop i h) = Some n" "m = take n (drop i h)" by blast
  then have pm: "published_marker m" using published_match_marker by simp
  have len: "length (take i h) = i" using L(1) by simp
  have "length (take i h) \<le> length pre'"
    if "h = pre' @ m' @ post'" "published_marker m'" for pre' m' post'
    using L(4)[OF that(1) published_marker_full_match[OF that(2)]] len by simp
  then show ?thesis using L(2) pm by blast
qed

lemma extract_pub_date_None:
  "extract_pub_date h = None \<longleftrightarrow>
     \<not> (\<exists>pre m post. h = pre @ m @ post \<and> published_marker m)"
proof
  assume "extract_pub_date h = None"
  then have "re_search False published_pattern h = None" by (simp add: extract_pub_date_def)
  then show "\<not> (\<exists>pre m post. h = pre @ m @ post \<and> published_marker m)"
    using published_marker_full_match by (auto simp: re_search_None_iff)
next
  assume n: "\<not> (\<exists>pre m post. h = pre @ m @ post \<and> published_marker m)"
  show "extract_pub_date h = None"
  proof (cases "extract_pub_date h")
    case None
    then show ?thesis .
  next
    case (Some m)
    from extract_pub_date_Some[OF this] n show ?thesis by blast
  qed
qed

text \<open>
  C5, as amended. A marker is \<open><Published\<close>, whitespace, \<open>=\<close>, whitespace, a value and
  \<open>>\<close>, where the value sits on one line, has at least one character, and has no \<open>>\<close>
  after its first character. For HTML that contains a marker, \<open>extract_pub_date\<close>
  returns a marker of the HTML verbatim, one that starts where the leftmost marker
  starts; so the match has no \<open>>\<close> before its last character other than, possibly, the
  first character of the value. For HTML that contains no marker it returns \<open>None\<close>.
\<close>

theorem extract_pub_date_marker:
  "(\<not> (\<exists>pre m post. h = pre @ m @ post \<and> published_marker m) \<longrightarrow>
      extract_pub_date h = None)
   \<and> ((\<exists>pre m post. h = pre @ m @ post \<and> published_marker m) \<longrightarrow>
      (\<exists>pre m post. extract_pub_date h = Some m \<and> h = pre @ m @ post \<and> published_marker m
         \<and> (\<forall>pre' m' post'. h = pre' @ m' @ post' \<and> published_marker m' \<longrightarrow>
               length pre \<le> length pre')))"
proof (intro conjI impI)
  assume "\<not> (\<exists>pre m post. h = pre @ m @ post \<and> published_marker m)"
  then show "extract_pub_date h = None" using extract_pub_date_None[of h] by blast
next
  assume "\<exists>pre m post. h = pre @ m @ post \<and> published_marker m"
  then have "extract_pub_date h \<noteq> None" using extract_pub_date_None[of h] by blast
  then obtain m where m: "extract_pub_date h = Some m" by auto
  from extract_pub_date_Some[OF m] obtain pre post where
    "h = pre @ m @ post" "published_marker m"
    "\<forall>pre' m' post'. h = pre' @ m' @ post' \<and> published_marker m' \<longrightarrow> length pre \<le> length pre'"
    by blast
  with m show "\<exists>pre m post. extract_pub_date h = Some m \<and> h = pre @ m @ post
      \<and> published_marker m
      \<and> (\<forall>pre' m' post'. h = pre' @ m' @ post' \<and> published_marker m' \<longrightarrow>
            length pre \<le> length pre')"
    by (rule_tac x = pre in exI, rule_tac x = m in exI, rule_tac x = post in exI) simp
qed

text \<open>
  On \<open><Published=>>\<close> the value is the first \<open>>\<close>, and the match has a \<open>>\<close> before its
  last character.
\<close>

theorem extract_pub_date_marker_counterexample:
  "extract_pub_date ''<Published=>>'' = Some ''<Published=>>''
   \<and> CHR ''>'' \<in> set (butlast ''<Published=>>'')"
  by (simp add: extract_pub_date_def published_pattern_def lit_def isspace_def)

theorem extract_pub_date_marker_witness:
  "(\<exists>pre m post. ''x<Published = 2016-01-02>y'' = pre @ m @ post \<and> published_marker m)
   \<and> extract_pub_date ''x<Published = 2016-01-02>y'' = Some ''<Published = 2016-01-02>''
   \<and> \<not> (\<exists>pre m post. ''<Published=>'' = pre @ m @ post \<and> published_marker m)
   \<and> extract_pub_date ''<Published=>'' = None"
proof -
  have 1: "extract_pub_date ''x<Published = 2016-01-02>y'' = Some ''<Published = 2016-01-02>''"
    by (simp add: extract_pub_date_def published_pattern_def lit_def isspace_def)
  have 2: "extract_pub_date ''<Published=>'' = None"
    by (simp add: extract_pub_date_def published_pattern_def lit_def isspace_def)
  have 3: "\<exists>pre m post. ''x<Published = 2016-01-02>y'' = pre @ m @ post \<and> published_marker m"
    using 1 extract_pub_date_marker[of "''x<Published = 2016-01-02>y''"] by fastforce
  have 4: "\<not> (\<exists>pre m post. ''<Published=>'' = pre @ m @ post \<and> published_marker m)"
    using 2 extract_pub_date_marker[of "''<Published=>''"] by fastforce
  show ?thesis using 1 2 3 4 by blast
qed

section \<open>C6: the title of a post\<close>













section \<open>C7: the order of the previews on the landing page\<close>

lemma aggregate_all:
  "aggregate acc (map Inr ps) =
     Inr (acc @ concat (map (\<lambda>p. generate_preview_html p @ [CHR 0x0A, CHR 0x0A]) ps))"
  by (induction ps arbitrary: acc) simp_all

text \<open>
  C7. When the listing, the template and the configuration are read and every preview
  is extracted, \<open>generate_landing_page\<close> renders the page template with, as
  \<open>article_content\<close>, the previews of the listing in reverse order, each rendered by
  \<open>generate_preview_html\<close> and followed by two newlines: for the listing \<open>[A, B]\<close> the
  preview of \<open>B\<close>, a blank line, the preview of \<open>A\<close>.
\<close>

theorem landing_page_order:
  assumes "read_listing_file e (LISTING_PATH e) = Inr listing"
    and "map (extract_article_preview e) listing = map Inr previews"
    and "read_complete_file e template_path = Inr template"
    and "get_configuration e = Inr c"
  shows "fst (generate_landing_page e template_path) =
     collab (format e template
       (page_arguments e c (blog_title c) []
          (concat (map (\<lambda>p. generate_preview_html p @ [CHR 0x0A, CHR 0x0A]) (rev previews)))
          []))"
proof -
  have "map (extract_article_preview e) (rev listing) = map Inr (rev previews)"
    using assms(2) by (simp add: rev_map [symmetric])
  then show ?thesis
    using assms(1,3,4)
    by (simp add: generate_landing_page_def create_article_previews_def collab_def
        aggregate_all)
qed

theorem landing_page_order_witness:
  "fst (generate_landing_page
         (demo_env [demo_article ''a'' ''<h1>A</h1>'', demo_article ''b'' ''<h1>B</h1>''])
         ''template'')
   = Inr (''|Blog|'' @ generate_preview_html (demo_preview ''b'' ''<h1>B</h1>'')
          @ [CHR 0x0A, CHR 0x0A] @ generate_preview_html (demo_preview ''a'' ''<h1>A</h1>'')
          @ [CHR 0x0A, CHR 0x0A])"
proof -
  let ?l = "[demo_article ''a'' ''<h1>A</h1>'', demo_article ''b'' ''<h1>B</h1>'']"
  let ?c = "\<lparr>blog_title = ''Blog'', blog_subtitle = ''Notes'', owner = ''Owner'',
             email_address = ''owner@example.org'', rss_feed_path = ''rss.xml'',
             style_sheet = ''style.css'', root_url = ''https://example.org''\<rparr>"
  have c: "get_configuration (demo_env ?l) = Inr ?c" by (simp add: demo_env_def)
  have f: "format (demo_env ?l) ''{nav_bar}|{article_title}|{article_content}''
             (page_arguments (demo_env ?l) ?c ''Blog'' [] x [])
           = Inr (''|Blog|'' @ x)" for x
    by (simp add: demo_env_def page_arguments_def)
  have m: "map (extract_article_preview (demo_env ?l)) ?l
      = map Inr [demo_preview ''a'' ''<h1>A</h1>'', demo_preview ''b'' ''<h1>B</h1>'']"
    by (simp add: demo_extract)
  show ?thesis
    using landing_page_order[of "demo_env ?l" ?l
        "[demo_preview ''a'' ''<h1>A</h1>'', demo_preview ''b'' ''<h1>B</h1>'']"
        "''template''" "''{nav_bar}|{article_title}|{article_content}''" ?c, OF _ m _ c]
    by (simp add: f collab_def)
qed

section \<open>C8: the listing after an operation\<close>

lemma generate_post_listing:
  "article_title_match (html a) = Some heading \<Longrightarrow>
   read_listing_file e listing_path = Inr l \<Longrightarrow>
   snd (snd (generate_post e a template_path listing_path)) = Some l"
  by (simp add: generate_post_def Let_def article_content_html_def collab_def py_split_not_Nil
      split: list.splits)

text \<open>
  C8, as amended. \<open>generate_post\<close> leaves the list it read as it was read.
  \<open>create_article_previews\<close>, and \<open>generate_landing_page\<close> through it, reverse that list
  in place (line 328): when they are done it holds the same articles in the reverse of
  the order read.
\<close>

theorem listing_order:
  "(snd (snd (generate_post e a template_path listing_path)) = Some l \<longrightarrow>
      read_listing_file e listing_path = Inr l)
   \<and> (create_article_previews e listing_path = Inr (l, g) \<longrightarrow>
      (\<exists>l0. read_listing_file e listing_path = Inr l0 \<and> l = rev l0))
   \<and> (snd (generate_landing_page e template_path) = Some l \<longrightarrow>
      (\<exists>l0. read_listing_file e (LISTING_PATH e) = Inr l0 \<and> l = rev l0))"
proof (intro conjI impI)
  assume "snd (snd (generate_post e a template_path listing_path)) = Some l"
  then show "read_listing_file e listing_path = Inr l"
    by (auto simp: generate_post_def Let_def collab_def split: option.splits sum.splits)
next
  assume "create_article_previews e listing_path = Inr (l, g)"
  then show "\<exists>l0. read_listing_file e listing_path = Inr l0 \<and> l = rev l0"
    by (auto simp: create_article_previews_def collab_def Let_def split: sum.splits)
next
  assume "snd (generate_landing_page e template_path) = Some l"
  then show "\<exists>l0. read_listing_file e (LISTING_PATH e) = Inr l0 \<and> l = rev l0"
    by (auto simp: generate_landing_page_def create_article_previews_def collab_def Let_def
        split: sum.splits)
qed

text \<open>
  The listing of three posts is not in the order read once \<open>create_article_previews\<close>
  or \<open>generate_landing_page\<close> has run.
\<close>

theorem listing_order_counterexample:
  "read_listing_file (demo_env demo_listing) ''listing'' = Inr demo_listing
   \<and> map_sum id fst (create_article_previews (demo_env demo_listing) ''listing'')
       = Inr (rev demo_listing)
   \<and> snd (generate_landing_page (demo_env demo_listing) ''template'') = Some (rev demo_listing)
   \<and> rev demo_listing \<noteq> demo_listing"
proof -
  have "rev demo_listing \<noteq> demo_listing"
    by (simp add: demo_listing_def demo_article_def)
  then show ?thesis
    by (simp add: generate_landing_page_def create_article_previews_def collab_def Let_def)
qed

theorem listing_order_witness:
  "snd (snd (generate_post (demo_env demo_listing) (demo_article ''b'' ''<h1>B</h1>x'')
        ''template'' ''listing'')) = Some demo_listing
   \<and> read_listing_file (demo_env demo_listing) ''listing'' = Inr demo_listing
   \<and> snd (generate_landing_page (demo_env demo_listing) ''template'') = Some (rev demo_listing)"
proof -
  have 1: "snd (snd (generate_post (demo_env demo_listing) (demo_article ''b'' ''<h1>B</h1>x'')
        ''template'' ''listing'')) = Some demo_listing"
    by (rule generate_post_listing[where heading = "''<h1>B</h1>''"])
       (simp_all add: article_title_match_def h1_pattern_def lit_def demo_article_def)
  have 2: "snd (generate_landing_page (demo_env demo_listing) ''template'')
      = Some (rev demo_listing)"
    by (simp add: generate_landing_page_def create_article_previews_def collab_def Let_def)
  show ?thesis
    using 1 2
      listing_order[where e = "demo_env demo_listing"
        and a = "demo_article ''b'' ''<h1>B</h1>x''" and template_path = "''template''"
        and listing_path = "''listing''" and l = demo_listing]
      listing_order[where e = "demo_env demo_listing" and template_path = "''template''"
        and l = "rev demo_listing"]
    by simp
qed

section \<open>C9: rendering a post twice\<close>

text \<open>
  C9. Rendering is a function of its inputs, and the title that the first run assigns
  does not change the second: \<open>generate_post\<close> run again on the article as the first
  run left it, with the same environment (HTML, listing, templates, configuration,
  date), gives the same result, the same page text included; and the page text does
  not depend on the title the article had before.
\<close>

theorem generate_post_twice:
  "generate_post e (fst (snd (generate_post e a template_path listing_path)))
       template_path listing_path
     = generate_post e a template_path listing_path
   \<and> fst (generate_post e (a\<lparr>title := t\<rparr>) template_path listing_path)
     = fst (generate_post e a template_path listing_path)"
proof (cases "article_title_match (html a)")
  case None
  then show ?thesis by (simp add: generate_post_def)
next
  case (Some heading)
  have c: "article_content_html (a\<lparr>title := t'\<rparr>) heading x = article_content_html a heading x"
    for t' x
    by (simp add: article_content_html_def)
  show ?thesis
    using Some by (simp add: generate_post_def Let_def c split: sum.splits)
qed

theorem generate_post_twice_witness:
  "generate_post (demo_env demo_listing)
     (fst (snd (generate_post (demo_env demo_listing) (demo_article ''b'' ''<h1>B</h1>x'')
        ''template'' ''listing''))) ''template'' ''listing''
   = generate_post (demo_env demo_listing) (demo_article ''b'' ''<h1>B</h1>x'')
        ''template'' ''listing''"
  using generate_post_twice[of "demo_env demo_listing" "demo_article ''b'' ''<h1>B</h1>x''"
      "''template''" "''listing''" "[]"]
  by simp

section \<open>C10: the article region of a raw page\<close>

text \<open>
  C10. \<open>preprocess_raw_html\<close> fails, with the \<open>AttributeError\<close> of \<open>None.group\<close>, exactly
  on the inputs with no region \<open><article>...</section>\<close> (the dots: at least one
  character, newlines included). On the others it returns the first such region
  (leftmost, and the shortest from there) after the four \<open>replace\<close> calls that delete
  \<open><article>\<close>, \<open></section>\<close>, \<open><section class="main_content">\<close> and
  \<open><section class="article_content">\<close>.
\<close>

theorem preprocess_raw_html_region:
  \<open>(\<not> (\<exists>pre m post. raw_html = pre @ m @ post \<and> region True ''<article>'' ''</section>'' m)
      \<longrightarrow> preprocess_raw_html raw_html = Inl AttributeError_None)
   \<and> ((\<exists>pre m post. raw_html = pre @ m @ post \<and> region True ''<article>'' ''</section>'' m)
      \<longrightarrow> (\<exists>i m. first_region True ''<article>'' ''</section>'' raw_html i m
            \<and> preprocess_raw_html raw_html =
                Inr (py_replace ''<section class="article_content">'' []
                      (py_replace ''<section class="main_content">'' []
                        (py_replace ''</section>'' [] (py_replace ''<article>'' [] m))))))\<close>
proof (intro conjI impI)
  assume "\<not> (\<exists>pre m post. raw_html = pre @ m @ post \<and> region True ''<article>'' ''</section>'' m)"
  then have "re_search True article_pattern raw_html = None"
    unfolding article_pattern_def re_search_no_region .
  then show "preprocess_raw_html raw_html = Inl AttributeError_None"
    by (simp add: preprocess_raw_html_def)
next
  assume "\<exists>pre m post. raw_html = pre @ m @ post \<and> region True ''<article>'' ''</section>'' m"
  then have "re_search True article_pattern raw_html \<noteq> None"
    unfolding article_pattern_def re_search_no_region by simp
  then obtain i m where im: "re_search True article_pattern raw_html = Some (i, m)" by auto
  then have "first_region True ''<article>'' ''</section>'' raw_html i m"
    unfolding article_pattern_def by (rule re_search_first_region)
  moreover have \<open>preprocess_raw_html raw_html =
      Inr (py_replace ''<section class="article_content">'' []
            (py_replace ''<section class="main_content">'' []
              (py_replace ''</section>'' [] (py_replace ''<article>'' [] m))))\<close>
    using im by (simp add: preprocess_raw_html_def)
  ultimately show \<open>\<exists>i m. first_region True ''<article>'' ''</section>'' raw_html i m
      \<and> preprocess_raw_html raw_html =
          Inr (py_replace ''<section class="article_content">'' []
                (py_replace ''<section class="main_content">'' []
                  (py_replace ''</section>'' [] (py_replace ''<article>'' [] m))))\<close>
    by blast
qed

theorem preprocess_raw_html_region_witness:
  \<open>(\<exists>pre m post. ''x<article><section class="main_content">Hello</section>y'' = pre @ m @ post
        \<and> region True ''<article>'' ''</section>'' m)
   \<and> preprocess_raw_html ''x<article><section class="main_content">Hello</section>y''
       = Inr ''Hello''
   \<and> \<not> (\<exists>pre m post. ''<article></section>'' = pre @ m @ post
        \<and> region True ''<article>'' ''</section>'' m)
   \<and> preprocess_raw_html ''<article></section>'' = Inl AttributeError_None\<close>
proof -
  have 1: \<open>preprocess_raw_html ''x<article><section class="main_content">Hello</section>y''
       = Inr ''Hello''\<close>
    by (simp add: preprocess_raw_html_def article_pattern_def lit_def)
  have 2: "preprocess_raw_html ''<article></section>'' = Inl AttributeError_None"
    by (simp add: preprocess_raw_html_def article_pattern_def lit_def)
  show ?thesis
    using 1 2
      preprocess_raw_html_region
        [of \<open>''x<article><section class="main_content">Hello</section>y''\<close>]
      preprocess_raw_html_region[of "''<article></section>''"]
    by (metis Inl_Inr_False)
qed

end
